theory Spec2Isabelle
  imports Main
begin

section \<open>Parsed JSON and Python dictionaries\<close>

text \<open>
  \<^verbatim>\<open>solution.py\<close> walks a tree of HTTP resources. Every resource answers with a JSON
  body, which \<^verbatim>\<open>response.json()\<close> turns into Python values. The model keeps the shape
  of those values: \<open>JNull\<close> is Python's \<^verbatim>\<open>None\<close>, a JSON object is a \<^verbatim>\<open>dict\<close>. Numbers
  are the integral ones; the program only ever asks a number for its truth value,
  and a fractional number other than 0.0 is true like any non-zero integer. A
  string is the sequence of its characters, of which the type \<open>char\<close> holds the
  first 256 code points.
\<close>

datatype json =
    JNull
  | JBool bool
  | JNum int
  | JStr string
  | JArr "json list"
  | JObj "(string \<times> json) list"

text \<open>
  A \<^verbatim>\<open>dict\<close> keeps its keys in insertion order, so it is an association list; the keys
  of a dict that Python built are distinct.
\<close>

type_synonym dict = "(string \<times> json) list"

text \<open>The truth value Python gives a value in \<^verbatim>\<open>not x\<close>.\<close>

fun truthy :: "json \<Rightarrow> bool" where
  "truthy JNull = False"
| "truthy (JBool b) = b"
| "truthy (JNum n) = (n \<noteq> 0)"
| "truthy (JStr s) = (s \<noteq> [])"
| "truthy (JArr xs) = (xs \<noteq> [])"
| "truthy (JObj d) = (d \<noteq> [])"

text \<open>\<^verbatim>\<open>k in d\<close>\<close>

definition dict_contains :: "dict \<Rightarrow> string \<Rightarrow> bool" where
  "dict_contains d k = (k \<in> set (map fst d))"

text \<open>\<^verbatim>\<open>d.get(k)\<close>: the value, or \<^verbatim>\<open>None\<close> when the key is absent.\<close>

definition dict_get :: "dict \<Rightarrow> string \<Rightarrow> json" where
  "dict_get d k = (case map_of d k of None \<Rightarrow> JNull | Some v \<Rightarrow> v)"

text \<open>
  \<^verbatim>\<open>d[k] = v\<close>: a key already there keeps its place and takes the new value, a new key
  goes to the end.
\<close>

fun dict_set :: "dict \<Rightarrow> string \<Rightarrow> json \<Rightarrow> dict" where
  "dict_set [] k v = [(k, v)]"
| "dict_set ((k', v') # d) k v =
     (if k' = k then (k, v) # d else (k', v') # dict_set d k v)"

section \<open>Utils\<close>

text \<open>
  \<^verbatim>\<open>
  def normalize_keys(data):
      """Convert keys to lowercase"""
      return {k.lower(): v for k, v in data.items()}
  \<close>
  The comprehension stores the pairs one after the other into a fresh dict.
  \<^verbatim>\<open>str.lower\<close> is Python's own: it knows all of Unicode and works on the string as a
  whole. It is not written out here but taken as the parameter \<open>low\<close>, any function
  from strings to strings.
\<close>

definition normalize_keys :: "(string \<Rightarrow> string) \<Rightarrow> dict \<Rightarrow> dict" where
  "normalize_keys low data = foldl (\<lambda>acc (k, v). dict_set acc (low k) v) [] data"

section \<open>The HTTP collaborator and the module's globals\<close>

text \<open>
  A request is what \<^verbatim>\<open>requests.get\<close> sends: the URL and the \<^verbatim>\<open>Session\<close> header, if any.
  A response is what the program reads of it: the status code, \<^verbatim>\<open>.text\<close>, and what
  \<^verbatim>\<open>.json()\<close> returns (\<open>None\<close> when it raises because the body is not JSON).
\<close>

record request =
  url :: string
  session_header :: "string option"

record response =
  status_code :: nat
  body_text :: string
  json_of :: "json option"

text \<open>
  The environment of a run: \<^verbatim>\<open>create_url = partial(urljoin, args.base)\<close>, taken as
  a function on strings; \<^verbatim>\<open>str.lower\<close> of the interpreter, likewise; and the server, which
  answers a request knowing every request sent before it; \<open>None\<close> is a transport
  failure raised by \<^verbatim>\<open>requests.get\<close>.
\<close>

record env =
  create_url :: "string \<Rightarrow> string"
  lower :: "string \<Rightarrow> string"
  server :: "request list \<Rightarrow> request \<Rightarrow> response option"

text \<open>
  The global \<^verbatim>\<open>headers = {}\<close> only ever holds the key \<^verbatim>\<open>"Session"\<close>, so it is the
  optional value of that key. \<open>trace\<close> lists the requests sent so far, oldest first.
\<close>

record state =
  headers :: "string option"
  trace :: "request list"

definition initial_state :: state where
  "initial_state = \<lparr>headers = None, trace = []\<rparr>"

definition requests_get :: "env \<Rightarrow> state \<Rightarrow> request \<Rightarrow> response option \<times> state" where
  "requests_get e st r = (server e (trace st) r, st\<lparr>trace := trace st @ [r]\<rparr>)"

text \<open>\<^verbatim>\<open>response.raise_for_status()\<close> raises \<^verbatim>\<open>HTTPError\<close> on the 4xx and 5xx codes.\<close>

definition raises_for_status :: "response \<Rightarrow> bool" where
  "raises_for_status r = (400 \<le> status_code r \<and> status_code r < 600)"

section \<open>Errors\<close>

text \<open>
  Each way the program can fail is a value. The three \<^verbatim>\<open>raise\<close> statements of the
  source are named after the place that raises, and carry the session, URL and
  response that \<^verbatim>\<open>log_response_error\<close> is given just before:
  \<^item> \<open>MissingNextKey\<close>: \<^verbatim>\<open>'Missing "next" key in response'\<close> in \<^verbatim>\<open>get_next_secret\<close>;
  \<^item> \<open>SessionRefreshFailure\<close>: \<^verbatim>\<open>'Unable to refresh "Session" token.'\<close>;
  \<^item> \<open>MalformedErrorResponse\<close>: \<^verbatim>\<open>'"error" key missing from response.'\<close>.

  Each of the three raises a tuple, \<^verbatim>\<open>raise (KeyError, message, traceback)\<close>, which
  Python 3 answers with a \<^verbatim>\<open>TypeError\<close> at that very place: an exception leaves the
  function there in any case, and the value says where and with what report.

  The others are the exceptions of the Python operations the program performs:
  \<^verbatim>\<open>headers["Session"]\<close> on a dict without that key, \<^verbatim>\<open>.get\<close> or \<^verbatim>\<open>.items\<close> on a body
  that is not a dict, joining or iterating what is not a sequence of strings,
  \<^verbatim>\<open>.json()\<close> on a body that is not JSON, and a failure of the transport.
  The log lines themselves are not part of the model; what the program evaluates
  to produce them is.
\<close>

datatype error =
    MissingNextKey "string option" string dict
  | SessionRefreshFailure string string json
  | MalformedErrorResponse string string json
  | KeyError string
  | AttributeError
  | TypeError
  | JSONDecodeError
  | TransportFailure

section \<open>Core\<close>

text \<open>
  \<^verbatim>\<open>
  def request_next(path, is_retry=False):
      response = requests.get(create_url(path), headers=headers)
      response_json = response.json()
      try:
          response.raise_for_status()
      except requests.HTTPError as e:
          if is_retry:
              ... log_response_error(message, headers["Session"], create_url(path), response_json)
              raise (type(e), message, traceback)
          if not response_json.get("error"):
              ... log_response_error(message, headers["Session"], create_url(path), response_json)
              raise (type(e), message, traceback)
          headers["Session"] = requests.get(create_url("get-session")).text
          return request_next(path, is_retry=True)
      log.info("GET %s %s", create_url(path), response_json.get("secret") or "")
      return response
  \<close>
  The arguments of \<^verbatim>\<open>log_response_error\<close> are evaluated before it is called, so
  \<^verbatim>\<open>headers["Session"]\<close> raises \<^verbatim>\<open>KeyError\<close> first when no credential is stored.
\<close>

function request_next :: "env \<Rightarrow> state \<Rightarrow> string \<Rightarrow> bool \<Rightarrow> (error + response) \<times> state" where
  "request_next e st path is_retry =
     (case requests_get e st \<lparr>url = create_url e path, session_header = headers st\<rparr> of
        (None, st1) \<Rightarrow> (Inl TransportFailure, st1)
      | (Some response, st1) \<Rightarrow>
          (case json_of response of
             None \<Rightarrow> (Inl JSONDecodeError, st1)
           | Some response_json \<Rightarrow>
               if raises_for_status response then
                 if is_retry then
                   (case headers st1 of
                      None \<Rightarrow> (Inl (KeyError ''Session''), st1)
                    | Some session \<Rightarrow>
                        (Inl (SessionRefreshFailure session (create_url e path) response_json), st1))
                 else
                   (case response_json of
                      JObj d \<Rightarrow>
                        if \<not> truthy (dict_get d ''error'') then
                          (case headers st1 of
                             None \<Rightarrow> (Inl (KeyError ''Session''), st1)
                           | Some session \<Rightarrow>
                               (Inl (MalformedErrorResponse session (create_url e path) response_json), st1))
                        else
                          (case requests_get e st1
                                  \<lparr>url = create_url e ''get-session'', session_header = None\<rparr> of
                             (None, st2) \<Rightarrow> (Inl TransportFailure, st2)
                           | (Some fresh, st2) \<Rightarrow>
                               request_next e (st2\<lparr>headers := Some (body_text fresh)\<rparr>) path True)
                    | _ \<Rightarrow> (Inl AttributeError, st1))
               else
                 (case response_json of
                    JObj d \<Rightarrow> (Inr response, st1)
                  | _ \<Rightarrow> (Inl AttributeError, st1))))"
  by pat_completeness auto
termination
  by (relation "measure (\<lambda>(e, st, path, is_retry). if is_retry then 0 else 1)") auto

declare request_next.simps [simp del]

text \<open>
  What a \<^verbatim>\<open>for\<close> loop over \<^verbatim>\<open>next_list\<close> visits, when every item is a string, as
  \<^verbatim>\<open>"\n".join(next_list)\<close> in \<^verbatim>\<open>log_next_list\<close> demands before the loop starts: the
  items of a list, the characters of a string, the keys of a dict. \<open>None\<close> is the
  \<^verbatim>\<open>TypeError\<close> of the join.
\<close>

fun the_strings :: "json list \<Rightarrow> string list option" where
  "the_strings [] = Some []"
| "the_strings (JStr s # xs) = map_option ((#) s) (the_strings xs)"
| "the_strings (_ # xs) = None"

fun next_paths :: "json \<Rightarrow> string list option" where
  "next_paths (JArr xs) = the_strings xs"
| "next_paths (JStr s) = Some (map (\<lambda>c. [c]) s)"
| "next_paths (JObj d) = Some (map fst d)"
| "next_paths _ = None"

text \<open>
  A generator's run is what it yields, in order, and the exception that ends it,
  if one does; with them goes the state of the globals at that moment.
\<close>

type_synonym yielded = "state \<times> json list \<times> error option"

text \<open>
  \<^verbatim>\<open>
  for next_path in next_list:
      for next_secret in get_next_secret(next_path):
          yield next_secret
  \<close>
  with the recursive call as the parameter \<open>visit\<close>; \<open>None\<close> is a visit that does
  not return.
\<close>

fun for_next_path :: "(state \<Rightarrow> string \<Rightarrow> yielded option) \<Rightarrow> state \<Rightarrow> string list \<Rightarrow> yielded option" where
  "for_next_path visit st [] = Some (st, [], None)"
| "for_next_path visit st (next_path # rest) =
     (case visit st next_path of
        None \<Rightarrow> None
      | Some (st1, secrets, Some err) \<Rightarrow> Some (st1, secrets, Some err)
      | Some (st1, secrets, None) \<Rightarrow>
          (case for_next_path visit st1 rest of
             None \<Rightarrow> None
           | Some (st2, later, r) \<Rightarrow> Some (st2, secrets @ later, r)))"

text \<open>
  \<^verbatim>\<open>
  def get_next_secret(path):
      response = request_next(create_url(path))
      response_data = normalize_keys(response.json())
      if "secret" in response_data:
          secret = response_data["secret"]
          yield secret
      elif not response_data.get("next"):
          ... log_response_error(message, headers.get("Session"), create_url(path), response_data)
          raise (KeyError, message, traceback)
      else:
          next_list = response_data["next"]
          log_next_list(next_list)
          for next_path in next_list:
              for next_secret in get_next_secret(next_path):
                  yield next_secret
  \<close>
  The recursion has no bound in the source (the recursion limit of the interpreter
  is left out). The first argument bounds its depth: \<open>None\<close> is a traversal that
  needs to go deeper.
\<close>

fun get_next_secret :: "nat \<Rightarrow> env \<Rightarrow> state \<Rightarrow> string \<Rightarrow> yielded option" where
  "get_next_secret 0 e st path = None"
| "get_next_secret (Suc depth) e st path =
     (case request_next e st (create_url e path) False of
        (Inl err, st1) \<Rightarrow> Some (st1, [], Some err)
      | (Inr response, st1) \<Rightarrow>
          (case json_of response of
             None \<Rightarrow> Some (st1, [], Some JSONDecodeError)
           | Some (JObj d) \<Rightarrow>
               (let response_data = normalize_keys (lower e) d in
                if dict_contains response_data ''secret'' then
                  Some (st1, [dict_get response_data ''secret''], None)
                else if \<not> truthy (dict_get response_data ''next'') then
                  Some (st1, [],
                    Some (MissingNextKey (headers st1) (create_url e path) response_data))
                else
                  (case next_paths (dict_get response_data ''next'') of
                     None \<Rightarrow> Some (st1, [], Some TypeError)
                   | Some next_list \<Rightarrow> for_next_path (get_next_secret depth e) st1 next_list))
           | Some _ \<Rightarrow> Some (st1, [], Some AttributeError)))"

section \<open>Main\<close>

text \<open>\<^verbatim>\<open>"".join(secrets)\<close>: \<open>None\<close> is the \<^verbatim>\<open>TypeError\<close> for an item that is not a string.\<close>

fun join :: "json list \<Rightarrow> string option" where
  "join [] = Some []"
| "join (JStr s # xs) = map_option ((@) s) (join xs)"
| "join (_ # xs) = None"

text \<open>
  \<^verbatim>\<open>
  def run():
      try:
          parser.exit(0, "".join(get_next_secret("start")))
      except Exception as error:
          parser.error(error)
  \<close>
  \<^verbatim>\<open>parser.exit(0, message)\<close> prints the message and leaves with status 0;
  \<^verbatim>\<open>parser.error\<close> prints the error and leaves with status 2.
\<close>

datatype outcome = Exit_0 string | Exit_2 error

definition run :: "nat \<Rightarrow> env \<Rightarrow> outcome option" where
  "run depth e =
     (case get_next_secret depth e initial_state ''start'' of
        None \<Rightarrow> None
      | Some (st, secrets, Some err) \<Rightarrow> Some (Exit_2 err)
      | Some (st, secrets, None) \<Rightarrow>
          (case join secrets of
             None \<Rightarrow> Some (Exit_2 TypeError)
           | Some message \<Rightarrow> Some (Exit_0 message)))"

section \<open>Vocabulary of the properties\<close>

text \<open>The step of the comprehension in \<^verbatim>\<open>normalize_keys\<close>, for one item of the dict.\<close>

definition store_lower :: "(string \<Rightarrow> string) \<Rightarrow> dict \<Rightarrow> string \<times> json \<Rightarrow> dict" where
  "store_lower low acc kv = dict_set acc (low (fst kv)) (snd kv)"

text \<open>
  The request that \<^verbatim>\<open>request_next(path)\<close> sends for a node, the request of the refresh
  step, and the state once some requests have been sent.
\<close>

definition node_request :: "env \<Rightarrow> state \<Rightarrow> string \<Rightarrow> request" where
  "node_request e st path = \<lparr>url = create_url e path, session_header = headers st\<rparr>"

definition session_request :: "env \<Rightarrow> request" where
  "session_request e = \<lparr>url = create_url e ''get-session'', session_header = None\<rparr>"

definition sends :: "state \<Rightarrow> request list \<Rightarrow> state" where
  "sends st rs = st\<lparr>trace := trace st @ rs\<rparr>"

subsection \<open>Trees of resources\<close>

text \<open>
  A finite tree: a leaf holds a secret, a branch lists its children, each under the
  path that the branch's \<^verbatim>\<open>next\<close> list gives it.
\<close>

datatype tree = Leaf json | Branch "(string \<times> tree) list"

text \<open>The secrets of the leaves, depth first, children from left to right.\<close>

fun leaves :: "tree \<Rightarrow> json list" where
  "leaves (Leaf secret) = [secret]"
| "leaves (Branch children) = concat (map (\<lambda>c. leaves (snd c)) children)"

text \<open>The paths of the nodes in the same order, a node before its children.\<close>

fun visited :: "string \<Rightarrow> tree \<Rightarrow> string list" where
  "visited path (Leaf secret) = [path]"
| "visited path (Branch children) =
     path # concat (map (\<lambda>c. visited (fst c) (snd c)) children)"

fun height :: "tree \<Rightarrow> nat" where
  "height (Leaf secret) = 0"
| "height (Branch children) = Suc (fold max (map (\<lambda>c. height (snd c)) children) 0)"

text \<open>
  A server that answers by the URL alone, whatever was sent before and whatever
  the \<^verbatim>\<open>Session\<close> header.
\<close>

definition static :: "(string \<Rightarrow> response option) \<Rightarrow> request list \<Rightarrow> request \<Rightarrow> response option" where
  "static site tr r = site (url r)"

text \<open>
  The body that a site serves for a path with a success status, its keys normalized;
  \<open>None\<close> when the site does not answer so.
\<close>

definition served :: "(string \<Rightarrow> string) \<Rightarrow> (string \<Rightarrow> string) \<Rightarrow> (string \<Rightarrow> response option) \<Rightarrow> string \<Rightarrow> dict option" where
  "served cu low site path =
     (case site (cu (cu path)) of
        None \<Rightarrow> None
      | Some resp \<Rightarrow>
          if raises_for_status resp then None
          else (case json_of resp of
                  Some (JObj d) \<Rightarrow> Some (normalize_keys low d)
                | _ \<Rightarrow> None))"

text \<open>
  The site holds the tree \<open>t\<close> at \<open>path\<close>: a leaf answers with its secret, a branch
  answers without a secret and with the non-empty list of its children's paths, and
  every path ends at a leaf because the tree is finite.
\<close>

fun holds_tree :: "(string \<Rightarrow> string) \<Rightarrow> (string \<Rightarrow> string) \<Rightarrow> (string \<Rightarrow> response option) \<Rightarrow> string \<Rightarrow> tree \<Rightarrow> bool" where
  "holds_tree cu low site path (Leaf secret) =
     (case served cu low site path of
        None \<Rightarrow> False
      | Some response_data \<Rightarrow>
          dict_contains response_data ''secret'' \<and> dict_get response_data ''secret'' = secret)"
| "holds_tree cu low site path (Branch children) =
     (children \<noteq> []
      \<and> (case served cu low site path of
            None \<Rightarrow> False
          | Some response_data \<Rightarrow>
              \<not> dict_contains response_data ''secret''
              \<and> dict_get response_data ''next'' = JArr (map (\<lambda>c. JStr (fst c)) children))
      \<and> (\<forall>c \<in> set children. holds_tree cu low site (fst c) (snd c)))"

subsection \<open>The credential along a run\<close>

text \<open>
  From \<open>st\<close> to \<open>st'\<close> the program has only sent requests; the credential has changed
  only if the refresh request is among them; and up to the first refresh request
  every request carries the credential as it was in \<open>st\<close>.
\<close>

definition refresh_only :: "env \<Rightarrow> state \<Rightarrow> state \<Rightarrow> bool" where
  "refresh_only e st st' =
     (let new = drop (length (trace st)) (trace st') in
      take (length (trace st)) (trace st') = trace st
      \<and> (headers st' = headers st \<or> session_request e \<in> set new)
      \<and> (\<forall>r \<in> set (takeWhile (\<lambda>r. r \<noteq> session_request e) new).
            session_header r = headers st))"

subsection \<open>Example servers\<close>

text \<open>
  \<^verbatim>\<open>str.lower\<close> as it acts on a string of ASCII characters: a capital becomes its small
  letter, every other character stays. The examples have no other strings.
\<close>

definition ascii_lower_char :: "char \<Rightarrow> char" where
  "ascii_lower_char c =
     (case map_of (zip ''ABCDEFGHIJKLMNOPQRSTUVWXYZ'' ''abcdefghijklmnopqrstuvwxyz'') c of
        None \<Rightarrow> c
      | Some l \<Rightarrow> l)"

definition ascii_lower :: "string \<Rightarrow> string" where
  "ascii_lower s = map ascii_lower_char s"

text \<open>
  \<^verbatim>\<open>create_url\<close> for the base \<^verbatim>\<open>http://h/\<close>: an absolute URL stays, a relative path goes
  under the base.
\<close>

definition demo_url :: "string \<Rightarrow> string" where
  "demo_url p = (if take 7 p = ''http://'' then p else ''http://h/'' @ p)"

definition reply :: "nat \<Rightarrow> json \<Rightarrow> response option" where
  "reply code j = Some \<lparr>status_code = code, body_text = [], json_of = Some j\<rparr>"

text \<open>A site given by a table from URLs to answers.\<close>

definition table_site :: "(string \<times> response option) list \<Rightarrow> string \<Rightarrow> response option" where
  "table_site table u = (case map_of table u of None \<Rightarrow> None | Some a \<Rightarrow> a)"

definition table_env :: "(string \<times> response option) list \<Rightarrow> env" where
  "table_env table =
     \<lparr>create_url = demo_url, lower = ascii_lower, server = static (table_site table)\<rparr>"

text \<open>
  A site that wants the credential \<open>token\<close>: it hands the token out at
  \<^verbatim>\<open>get-session\<close>, answers from the table when the request carries it, and with
  \<open>denial\<close> otherwise.
\<close>

definition session_env :: "string \<Rightarrow> response option \<Rightarrow> (string \<times> response option) list \<Rightarrow> env" where
  "session_env token denial table =
     \<lparr>create_url = demo_url,
      lower = ascii_lower,
      server = (\<lambda>tr r.
        if url r = ''http://h/get-session'' then
          Some \<lparr>status_code = 200, body_text = token, json_of = None\<rparr>
        else if session_header r = Some token then
          (case map_of table (url r) of None \<Rightarrow> None | Some a \<Rightarrow> a)
        else denial)\<rparr>"

text \<open>
  The tree of the end-to-end example: \<^verbatim>\<open>start\<close> leads to \<^verbatim>\<open>a\<close> and \<^verbatim>\<open>b\<close>, \<^verbatim>\<open>a\<close> holds
  \<^verbatim>\<open>X\<close>, \<^verbatim>\<open>b\<close> leads to \<^verbatim>\<open>c\<close>, which holds \<^verbatim>\<open>Y\<close>. The keys come in mixed case.
\<close>

definition xy_table :: "(string \<times> response option) list" where
  "xy_table =
     [(''http://h/start'', reply 200 (JObj [(''Next'', JArr [JStr ''a'', JStr ''b''])])),
      (''http://h/a'', reply 200 (JObj [(''secret'', JStr ''X'')])),
      (''http://h/b'', reply 200 (JObj [(''NEXT'', JArr [JStr ''c''])])),
      (''http://h/c'', reply 200 (JObj [(''SeCret'', JStr ''Y'')]))]"

definition xy_tree :: tree where
  "xy_tree =
     Branch [(''a'', Leaf (JStr ''X'')), (''b'', Branch [(''c'', Leaf (JStr ''Y''))])]"

text \<open>
  A site that hands out the credential \<^verbatim>\<open>tok\<close> and still refuses \<^verbatim>\<open>start\<close>, and one
  that serves the secret \<^verbatim>\<open>Z\<close> at \<^verbatim>\<open>start\<close> once the request carries the credential.
\<close>

definition refusing_env :: env where
  "refusing_env =
     table_env
       [(''http://h/get-session'', Some \<lparr>status_code = 200, body_text = ''tok'', json_of = None\<rparr>),
        (''http://h/start'', reply 401 (JObj [(''error'', JStr ''no session'')]))]"

definition z_env :: env where
  "z_env =
     session_env ''tok'' (reply 401 (JObj [(''error'', JStr ''no session'')]))
       [(''http://h/start'', reply 200 (JObj [(''secret'', JStr ''Z'')]))]"

text \<open>
  A site that wants the credential, leads from \<^verbatim>\<open>start\<close> to \<^verbatim>\<open>a\<close>, and answers \<^verbatim>\<open>a\<close>
  with status 401 and the given body.
\<close>

definition failing_child_env :: "json \<Rightarrow> env" where
  "failing_child_env body =
     session_env ''tok'' (reply 401 (JObj [(''error'', JStr ''no session'')]))
       [(''http://h/start'', reply 200 (JObj [(''next'', JArr [JStr ''a''])])),
        (''http://h/a'', reply 401 body)]"

text \<open>A site that wants the credential and then answers \<^verbatim>\<open>start\<close> with an empty object.\<close>

definition empty_start_env :: env where
  "empty_start_env =
     session_env ''tok'' (reply 401 (JObj [(''error'', JStr ''no session'')]))
       [(''http://h/start'', reply 200 (JObj []))]"

text \<open>The example tree, and beside it a resource that fails with the key \<^verbatim>\<open>Error\<close>.\<close>

definition mixed_case_env :: env where
  "mixed_case_env =
     table_env (xy_table @ [(''http://h/x'', reply 401 (JObj [(''Error'', JStr ''expired'')]))])"

text \<open>
  \<^verbatim>\<open>start\<close> leads to \<^verbatim>\<open>a\<close>, \<^verbatim>\<open>b\<close> and \<^verbatim>\<open>c\<close>; \<^verbatim>\<open>a\<close> and \<^verbatim>\<open>c\<close> hold secrets, \<^verbatim>\<open>b\<close> has an
  empty \<^verbatim>\<open>next\<close> list.
\<close>

definition abort_env :: env where
  "abort_env =
     table_env
       [(''http://h/start'', reply 200 (JObj [(''next'', JArr [JStr ''a'', JStr ''b'', JStr ''c''])])),
        (''http://h/a'', reply 200 (JObj [(''secret'', JStr ''X'')])),
        (''http://h/b'', reply 200 (JObj [(''next'', JArr [])])),
        (''http://h/c'', reply 200 (JObj [(''secret'', JStr ''Y'')]))]"

section \<open>Key normalizer\<close>





lemma dict_set_fresh: "k \<notin> fst ` set d \<Longrightarrow> dict_set d k v = d @ [(k, v)]"
  by (induction d) auto

lemma dict_set_keys: "fst ` set (dict_set d k v) = insert k (fst ` set d)"
proof (induction d)
  case Nil
  then show ?case by simp
next
  case (Cons kv d)
  obtain k' v' where kv: "kv = (k', v')" by (cases kv)
  show ?case
    by (cases "k' = k") (simp_all add: kv Cons.IH insert_commute)
qed



lemma normalize_keys_foldl: "normalize_keys low data = foldl (store_lower low) [] data"
  by (simp add: normalize_keys_def store_lower_def [abs_def] case_prod_unfold)


lemma foldl_keys:
  "fst ` set (foldl (store_lower low) acc data) = fst ` set acc \<union> low ` fst ` set data"
  by (induction data arbitrary: acc) (simp_all add: store_lower_def dict_set_keys)


lemma foldl_plain:
  "distinct (map (\<lambda>kv. low (fst kv)) data) \<Longrightarrow>
   low ` fst ` set data \<inter> fst ` set acc = {} \<Longrightarrow>
   foldl (store_lower low) acc data = acc @ map (\<lambda>(k, v). (low k, v)) data"
proof (induction data arbitrary: acc)
  case Nil
  then show ?case by simp
next
  case (Cons kv data)
  obtain k v where kv: "kv = (k, v)" by (cases kv)
  from Cons.prems have fresh: "low k \<notin> fst ` set acc"
    by (auto simp: kv)
  have step: "store_lower low acc (k, v) = acc @ [(low k, v)]"
    using fresh by (simp add: store_lower_def dict_set_fresh)
  have "foldl (store_lower low) (acc @ [(low k, v)]) data =
          (acc @ [(low k, v)]) @ map (\<lambda>(k, v). (low k, v)) data"
  proof (rule Cons.IH)
    show "distinct (map (\<lambda>kv. low (fst kv)) data)"
      using Cons.prems(1) by simp
    show "low ` fst ` set data \<inter> fst ` set (acc @ [(low k, v)]) = {}"
      using Cons.prems by (auto simp: kv)
  qed
  then show ?case by (simp add: step kv)
qed


lemma normalize_keys_keys: "fst ` set (normalize_keys low m) = low ` fst ` set m"
  by (simp add: normalize_keys_foldl foldl_keys)

lemma normalize_keys_plain:
  "distinct (map (\<lambda>kv. low (fst kv)) m) \<Longrightarrow>
   normalize_keys low m = map (\<lambda>(k, v). (low k, v)) m"
  using foldl_plain [of low m "[]"] by (simp add: normalize_keys_foldl)





section \<open>Fetcher\<close>

lemma request_next_success:
  assumes "server e (trace st) (node_request e st path) = Some resp"
    and "json_of resp = Some (JObj d)"
    and "\<not> raises_for_status resp"
  shows "request_next e st path is_retry = (Inr resp, sends st [node_request e st path])"
  using assms
  by (subst request_next.simps) (simp add: requests_get_def node_request_def sends_def)

lemma sends_sends: "sends (sends st rs) rs' = sends st (rs @ rs')"
  by (simp add: sends_def)

lemma headers_sends: "headers (sends st rs) = headers st"
  by (simp add: sends_def)

lemma request_next_retry:
  "request_next e st path True =
     (case server e (trace st) (node_request e st path) of
        None \<Rightarrow> (Inl TransportFailure, sends st [node_request e st path])
      | Some response \<Rightarrow>
          (case json_of response of
             None \<Rightarrow> (Inl JSONDecodeError, sends st [node_request e st path])
           | Some response_json \<Rightarrow>
               if raises_for_status response then
                 (case headers st of
                    None \<Rightarrow> (Inl (KeyError ''Session''), sends st [node_request e st path])
                  | Some session \<Rightarrow>
                      (Inl (SessionRefreshFailure session (create_url e path) response_json),
                       sends st [node_request e st path]))
               else
                 (case response_json of
                    JObj d \<Rightarrow> (Inr response, sends st [node_request e st path])
                  | _ \<Rightarrow> (Inl AttributeError, sends st [node_request e st path]))))"
  by (subst request_next.simps)
    (simp add: requests_get_def node_request_def sends_def split: option.splits json.splits)

lemma request_next_retry_state:
  "snd (request_next e st path True) = sends st [node_request e st path]"
  by (simp add: request_next_retry split: option.splits json.splits)

lemma request_next_state:
  "snd (request_next e st path is_retry) = sends st [node_request e st path]
   \<or> snd (request_next e st path is_retry) =
       sends st [node_request e st path, session_request e]
   \<or> (\<exists>token. snd (request_next e st path is_retry) =
         sends (st\<lparr>headers := Some token\<rparr>)
           [node_request e st path, session_request e,
            \<lparr>url = create_url e path, session_header = Some token\<rparr>])"
proof (cases is_retry)
  case True
  then show ?thesis by (simp add: request_next_retry_state)
next
  case False
  show ?thesis
    unfolding False
    by (subst (1 2 3) request_next.simps)
      (auto simp: requests_get_def request_next_retry_state node_request_def
        session_request_def sends_def split: option.splits json.splits)
qed

lemma request_next_no_refresh:
  assumes "server e (trace st) (node_request e st path) = Some resp"
    and "raises_for_status resp"
    and "json_of resp = Some (JObj d)"
    and "\<not> truthy (dict_get d ''error'')"
  shows "request_next e st path False =
           (case headers st of
              None \<Rightarrow> Inl (KeyError ''Session'')
            | Some session \<Rightarrow> Inl (MalformedErrorResponse session (create_url e path) (JObj d)),
            sends st [node_request e st path])"
  using assms
  by (subst request_next.simps)
    (simp add: requests_get_def node_request_def sends_def split: option.splits)

lemma request_next_refresh:
  assumes "server e (trace st) (node_request e st path) = Some resp"
    and "raises_for_status resp"
    and "json_of resp = Some (JObj d)"
    and "truthy (dict_get d ''error'')"
    and "server e (trace st @ [node_request e st path]) (session_request e) = Some fresh"
  shows "request_next e st path False =
           request_next e
             ((sends st [node_request e st path, session_request e])
                \<lparr>headers := Some (body_text fresh)\<rparr>) path True"
  using assms
  by (subst request_next.simps)
    (simp add: requests_get_def node_request_def session_request_def sends_def)

text \<open>
  C2, as the code has it: when the first attempt of a fetch returns a failure status
  with a body whose \<^verbatim>\<open>error\<close> field has a true value (a non-empty string, say) and the
  session endpoint answers, the Fetcher performs exactly one credential refresh (one
  GET to the session endpoint, whose text becomes the new credential) and exactly one
  retry of the same path, which carries the new credential; these three requests are
  all it sends. If the retry also returns a failure status, the fetch fails with
  \<open>SessionRefreshFailure\<close>; if the retry succeeds, its response is returned.
\<close>

theorem one_refresh_then_one_retry:
  assumes "server e (trace st) (node_request e st path) = Some resp"
    and "raises_for_status resp"
    and "json_of resp = Some (JObj d)"
    and "truthy (dict_get d ''error'')"
    and "server e (trace st @ [node_request e st path]) (session_request e) = Some fresh"
    and "retry = \<lparr>url = create_url e path, session_header = Some (body_text fresh)\<rparr>"
  shows "snd (request_next e st path False) =
           \<lparr>headers = Some (body_text fresh),
            trace = trace st @ [node_request e st path, session_request e, retry]\<rparr>
         \<and> (\<forall>again j.
               server e (trace st @ [node_request e st path, session_request e]) retry = Some again
               \<and> raises_for_status again \<and> json_of again = Some j \<longrightarrow>
               fst (request_next e st path False) =
                 Inl (SessionRefreshFailure (body_text fresh) (create_url e path) j))
         \<and> (\<forall>again d'.
               server e (trace st @ [node_request e st path, session_request e]) retry = Some again
               \<and> \<not> raises_for_status again \<and> json_of again = Some (JObj d') \<longrightarrow>
               fst (request_next e st path False) = Inr again)"
proof -
  let ?st2 = "(sends st [node_request e st path, session_request e])
                \<lparr>headers := Some (body_text fresh)\<rparr>"
  have step: "request_next e st path False = request_next e ?st2 path True"
    by (rule request_next_refresh [OF assms(1-5)])
  have req: "node_request e ?st2 path = retry"
    by (simp add: node_request_def sends_def assms(6))
  have tr: "trace ?st2 = trace st @ [node_request e st path, session_request e]"
    by (simp add: sends_def)
  have hd: "headers ?st2 = Some (body_text fresh)"
    by (simp add: sends_def)
  have "snd (request_next e ?st2 path True) = sends ?st2 [retry]"
    by (simp add: request_next_retry_state req)
  then have a: "snd (request_next e st path False) =
           \<lparr>headers = Some (body_text fresh),
            trace = trace st @ [node_request e st path, session_request e, retry]\<rparr>"
    by (simp add: step sends_def)
  have b: "fst (request_next e st path False) =
             Inl (SessionRefreshFailure (body_text fresh) (create_url e path) j)"
    if "server e (trace st @ [node_request e st path, session_request e]) retry = Some again"
      and "raises_for_status again" and "json_of again = Some j" for again j
    using that by (simp add: step request_next_retry req tr hd)
  have c: "fst (request_next e st path False) = Inr again"
    if "server e (trace st @ [node_request e st path, session_request e]) retry = Some again"
      and "\<not> raises_for_status again" and "json_of again = Some (JObj d')" for again d'
    using that by (simp add: step request_next_retry req tr hd)
  from a b c show ?thesis by blast
qed

theorem one_refresh_then_one_retry_witness:
  "request_next refusing_env initial_state ''http://h/start'' False =
     (Inl (SessionRefreshFailure ''tok'' ''http://h/start'' (JObj [(''error'', JStr ''no session'')])),
      \<lparr>headers = Some ''tok'',
       trace = [\<lparr>url = ''http://h/start'', session_header = None\<rparr>,
                \<lparr>url = ''http://h/get-session'', session_header = None\<rparr>,
                \<lparr>url = ''http://h/start'', session_header = Some ''tok''\<rparr>]\<rparr>)
   \<and> request_next z_env initial_state ''http://h/start'' False =
     (Inr \<lparr>status_code = 200, body_text = [], json_of = Some (JObj [(''secret'', JStr ''Z'')])\<rparr>,
      \<lparr>headers = Some ''tok'',
       trace = [\<lparr>url = ''http://h/start'', session_header = None\<rparr>,
                \<lparr>url = ''http://h/get-session'', session_header = None\<rparr>,
                \<lparr>url = ''http://h/start'', session_header = Some ''tok''\<rparr>]\<rparr>)"
proof -
  let ?first = "\<lparr>url = ''http://h/start'', session_header = None\<rparr>"
  let ?refresh = "\<lparr>url = ''http://h/get-session'', session_header = None\<rparr>"
  let ?retry = "\<lparr>url = ''http://h/start'', session_header = Some ''tok''\<rparr>"
  let ?denial = "\<lparr>status_code = 401, body_text = [],
                  json_of = Some (JObj [(''error'', JStr ''no session'')])\<rparr>"
  let ?fresh = "\<lparr>status_code = 200, body_text = ''tok'', json_of = None\<rparr>"
  let ?z = "\<lparr>status_code = 200, body_text = [], json_of = Some (JObj [(''secret'', JStr ''Z'')])\<rparr>"
  have r1: "node_request refusing_env initial_state ''http://h/start'' = ?first"
    and r2: "session_request refusing_env = ?refresh"
    and r3: "\<lparr>url = create_url refusing_env ''http://h/start'',
              session_header = Some (body_text ?fresh)\<rparr> = ?retry"
    and r4: "create_url refusing_env ''http://h/start'' = ''http://h/start''"
    by code_simp+
  have z1: "node_request z_env initial_state ''http://h/start'' = ?first"
    and z2: "session_request z_env = ?refresh"
    and z3: "\<lparr>url = create_url z_env ''http://h/start'',
              session_header = Some (body_text ?fresh)\<rparr> = ?retry"
    by code_simp+
  have t0: "trace initial_state = []"
    by (simp add: initial_state_def)
  have a1: "server refusing_env (trace initial_state)
              (node_request refusing_env initial_state ''http://h/start'') = Some ?denial"
    and a5: "server refusing_env
              (trace initial_state @ [node_request refusing_env initial_state ''http://h/start''])
              (session_request refusing_env) = Some ?fresh"
    and a6: "server refusing_env [?first, ?refresh] ?retry = Some ?denial"
    by code_simp+
  have b1: "server z_env (trace initial_state)
              (node_request z_env initial_state ''http://h/start'') = Some ?denial"
    and b5: "server z_env
              (trace initial_state @ [node_request z_env initial_state ''http://h/start''])
              (session_request z_env) = Some ?fresh"
    and b6: "server z_env [?first, ?refresh] ?retry = Some ?z"
    by code_simp+
  have a2: "raises_for_status ?denial"
    and a3: "json_of ?denial = Some (JObj [(''error'', JStr ''no session'')])"
    and a4: "truthy (dict_get [(''error'', JStr ''no session'')] ''error'')"
    and a7: "\<not> raises_for_status ?z"
    by code_simp+
  note refused = one_refresh_then_one_retry [OF a1 a2 a3 a4 a5 r3 [symmetric]]
  note granted = one_refresh_then_one_retry [OF b1 a2 a3 a4 b5 z3 [symmetric]]
  have "snd (request_next refusing_env initial_state ''http://h/start'' False) =
          \<lparr>headers = Some ''tok'', trace = [?first, ?refresh, ?retry]\<rparr>"
    using refused by (simp add: r1 r2 t0)
  moreover have "fst (request_next refusing_env initial_state ''http://h/start'' False) =
          Inl (SessionRefreshFailure ''tok'' ''http://h/start'' (JObj [(''error'', JStr ''no session'')]))"
    using refused a6 a2 by (simp add: r1 r2 r4 t0)
  moreover have "snd (request_next z_env initial_state ''http://h/start'' False) =
          \<lparr>headers = Some ''tok'', trace = [?first, ?refresh, ?retry]\<rparr>"
    using granted by (simp add: z1 z2 t0)
  moreover have "fst (request_next z_env initial_state ''http://h/start'' False) = Inr ?z"
    using granted b6 a7 by (simp add: z1 z2 t0)
  ultimately show ?thesis
    by (simp add: prod_eq_iff)
qed

text \<open>
  C2 reads "for every failure with an \<^verbatim>\<open>error\<close> field in the body". The code asks
  \<^verbatim>\<open>not response_json.get("error")\<close>, the truth value of the field: a failure whose
  \<^verbatim>\<open>error\<close> is the empty string ends with \<open>MalformedErrorResponse\<close> and without a
  request to the session endpoint, in a call of \<^verbatim>\<open>request_next\<close> as in a whole traversal
  from the initial state.
\<close>

theorem empty_error_is_not_refreshed:
  "request_next (failing_child_env (JObj [(''error'', JStr [])]))
     \<lparr>headers = Some ''tok'', trace = []\<rparr> ''http://h/a'' False =
     (Inl (MalformedErrorResponse ''tok'' ''http://h/a'' (JObj [(''error'', JStr [])])),
      \<lparr>headers = Some ''tok'',
       trace = [\<lparr>url = ''http://h/a'', session_header = Some ''tok''\<rparr>]\<rparr>)
   \<and> get_next_secret 2 (failing_child_env (JObj [(''error'', JStr [])])) initial_state ''start'' =
     Some (\<lparr>headers = Some ''tok'',
             trace = [\<lparr>url = ''http://h/start'', session_header = None\<rparr>,
                      \<lparr>url = ''http://h/get-session'', session_header = None\<rparr>,
                      \<lparr>url = ''http://h/start'', session_header = Some ''tok''\<rparr>,
                      \<lparr>url = ''http://h/a'', session_header = Some ''tok''\<rparr>]\<rparr>,
           [], Some (MalformedErrorResponse ''tok'' ''http://h/a'' (JObj [(''error'', JStr [])])))"
  by code_simp

text \<open>
  C4: a first attempt that returns a failure status and a body without an \<^verbatim>\<open>error\<close>
  field is to fail with \<open>MalformedErrorResponse\<close>, with no refresh and no retry.
  Neither a refresh nor a retry happens (\<open>request_next_no_refresh\<close>). But while no
  credential is stored, \<^verbatim>\<open>headers["Session"]\<close> in the arguments of the error report
  raises \<^verbatim>\<open>KeyError\<close> before anything is logged or raised for the malformed response:
  so it goes when the first request of a run is answered with status 404 and the
  body \<^verbatim>\<open>{"message": "not found"}\<close>.
\<close>

theorem malformed_failure_without_credential:
  "request_next
     (table_env [(''http://h/start'', reply 404 (JObj [(''message'', JStr ''not found'')]))])
     initial_state ''http://h/start'' False =
     (Inl (KeyError ''Session''),
      \<lparr>headers = None, trace = [\<lparr>url = ''http://h/start'', session_header = None\<rparr>]\<rparr>)
   \<and> run 1 (table_env [(''http://h/start'', reply 404 (JObj [(''message'', JStr ''not found'')]))]) =
       Some (Exit_2 (KeyError ''Session''))"
  by code_simp

section \<open>Traversal engine\<close>

lemma dict_get_absent: "\<not> dict_contains d k \<Longrightarrow> dict_get d k = JNull"
  by (simp add: dict_contains_def dict_get_def map_of_eq_None_iff [THEN iffD2])

lemma normalize_keys_get:
  assumes "distinct (map (\<lambda>kv. low (fst kv)) d)" and "(k, v) \<in> set d"
  shows "dict_contains (normalize_keys low d) (low k)"
    and "dict_get (normalize_keys low d) (low k) = v"
proof -
  let ?nd = "map (\<lambda>(k, v). (low k, v)) d"
  have nd: "normalize_keys low d = ?nd"
    using assms(1) by (rule normalize_keys_plain)
  have keys: "map fst ?nd = map (\<lambda>kv. low (fst kv)) d"
    by (simp add: case_prod_unfold)
  have mem: "(low k, v) \<in> set ?nd"
    using assms(2) by force
  show "dict_contains (normalize_keys low d) (low k)"
    using mem unfolding nd dict_contains_def by force
  have "map_of ?nd (low k) = Some v"
    using mem assms(1) by (intro map_of_is_SomeI) (simp_all only: keys)
  then show "dict_get (normalize_keys low d) (low k) = v"
    by (simp add: nd dict_get_def)
qed

lemma normalize_keys_lacks:
  "k \<notin> low ` fst ` set d \<Longrightarrow> \<not> dict_contains (normalize_keys low d) k"
  using normalize_keys_keys [of low d] by (simp add: dict_contains_def)

lemma the_strings_JStr: "the_strings (map (\<lambda>c. JStr (f c)) cs) = Some (map f cs)"
  by (induction cs) simp_all

text \<open>
  C3, as the code has it: when the fetch of a node succeeds and the normalized
  response has no \<^verbatim>\<open>secret\<close>, and its \<^verbatim>\<open>next\<close> field is absent or is the empty list,
  the traversal fails at the raise of \<open>MissingNextKey\<close>, the same error in both
  cases. The report that \<^verbatim>\<open>log_response_error\<close> is given for it holds the stored
  credential, the URL of the offending path and the response data with the keys
  normalized. The raw response is not in it.
\<close>

theorem missing_next_key:
  assumes "request_next e st (create_url e path) False = (Inr resp, st1)"
    and "json_of resp = Some (JObj d)"
    and "\<not> dict_contains (normalize_keys (lower e) d) ''secret''"
    and "\<not> dict_contains (normalize_keys (lower e) d) ''next'' \<or> dict_get (normalize_keys (lower e) d) ''next'' = JArr []"
  shows "get_next_secret (Suc depth) e st path =
           Some (st1, [], Some (MissingNextKey (headers st1) (create_url e path) (normalize_keys (lower e) d)))"
proof -
  have "\<not> truthy (dict_get (normalize_keys (lower e) d) ''next'')"
    using assms(4) by (auto simp: dict_get_absent)
  then show ?thesis
    by (simp add: assms(1-3))
qed

theorem missing_next_key_witness:
  "get_next_secret 1 (table_env [(''http://h/start'', reply 200 (JObj [(''id'', JNum 1)]))])
     initial_state ''start'' =
     Some (\<lparr>headers = None, trace = [\<lparr>url = ''http://h/start'', session_header = None\<rparr>]\<rparr>, [],
           Some (MissingNextKey None ''http://h/start'' [(''id'', JNum 1)]))
   \<and> get_next_secret 1 (table_env [(''http://h/start'', reply 200 (JObj [(''Next'', JArr [])]))])
     initial_state ''start'' =
     Some (\<lparr>headers = None, trace = [\<lparr>url = ''http://h/start'', session_header = None\<rparr>]\<rparr>, [],
           Some (MissingNextKey None ''http://h/start'' [(''next'', JArr [])]))"
proof -
  let ?absent = "table_env [(''http://h/start'', reply 200 (JObj [(''id'', JNum 1)]))]"
  let ?empty = "table_env [(''http://h/start'', reply 200 (JObj [(''Next'', JArr [])]))]"
  let ?st1 = "\<lparr>headers = None, trace = [\<lparr>url = ''http://h/start'', session_header = None\<rparr>]\<rparr>"
  have a1: "request_next ?absent initial_state (create_url ?absent ''start'') False =
              (Inr \<lparr>status_code = 200, body_text = [], json_of = Some (JObj [(''id'', JNum 1)])\<rparr>, ?st1)"
    by code_simp
  have a2: "json_of \<lparr>status_code = 200, body_text = [], json_of = Some (JObj [(''id'', JNum 1)])\<rparr>
              = Some (JObj [(''id'', JNum 1)])"
    by simp
  have a3: "\<not> dict_contains (normalize_keys (lower ?absent) [(''id'', JNum 1)]) ''secret''"
    by code_simp
  have a4: "\<not> dict_contains (normalize_keys (lower ?absent) [(''id'', JNum 1)]) ''next''
              \<or> dict_get (normalize_keys (lower ?absent) [(''id'', JNum 1)]) ''next'' = JArr []"
    by code_simp
  have a5: "normalize_keys (lower ?absent) [(''id'', JNum 1)] = [(''id'', JNum 1)]"
    by code_simp
  have a6: "create_url ?absent ''start'' = ''http://h/start''"
    by code_simp
  have b1: "request_next ?empty initial_state (create_url ?empty ''start'') False =
              (Inr \<lparr>status_code = 200, body_text = [], json_of = Some (JObj [(''Next'', JArr [])])\<rparr>, ?st1)"
    by code_simp
  have b2: "json_of \<lparr>status_code = 200, body_text = [], json_of = Some (JObj [(''Next'', JArr [])])\<rparr>
              = Some (JObj [(''Next'', JArr [])])"
    by simp
  have b3: "\<not> dict_contains (normalize_keys (lower ?empty) [(''Next'', JArr [])]) ''secret''"
    by code_simp
  have b4: "\<not> dict_contains (normalize_keys (lower ?empty) [(''Next'', JArr [])]) ''next''
              \<or> dict_get (normalize_keys (lower ?empty) [(''Next'', JArr [])]) ''next'' = JArr []"
    by code_simp
  have b5: "normalize_keys (lower ?empty) [(''Next'', JArr [])] = [(''next'', JArr [])]"
    by code_simp
  have b6: "create_url ?empty ''start'' = ''http://h/start''"
    by code_simp
  from missing_next_key [OF a1 a2 a3 a4, of 0] missing_next_key [OF b1 b2 b3 b4, of 0]
  show ?thesis
    by (simp add: a5 a6 b5 b6)
qed

text \<open>
  C3 has the message of the error identify the raw response. What \<^verbatim>\<open>get_next_secret\<close>
  hands to \<^verbatim>\<open>log_response_error\<close> is \<^verbatim>\<open>response_data\<close>, the response after
  \<^verbatim>\<open>normalize_keys\<close>: two raw responses that differ in the casing of a key end with one
  and the same report, which therefore tells neither of them.
\<close>

theorem report_holds_normalized_response:
  "JObj [(''Next'', JArr [])] \<noteq> JObj [(''NEXT'', JArr [])]
   \<and> get_next_secret 1 (table_env [(''http://h/start'', reply 200 (JObj [(''Next'', JArr [])]))])
       initial_state ''start'' =
     Some (\<lparr>headers = None, trace = [\<lparr>url = ''http://h/start'', session_header = None\<rparr>]\<rparr>, [],
           Some (MissingNextKey None ''http://h/start'' [(''next'', JArr [])]))
   \<and> get_next_secret 1 (table_env [(''http://h/start'', reply 200 (JObj [(''NEXT'', JArr [])]))])
       initial_state ''start'' =
     Some (\<lparr>headers = None, trace = [\<lparr>url = ''http://h/start'', session_header = None\<rparr>]\<rparr>, [],
           Some (MissingNextKey None ''http://h/start'' [(''next'', JArr [])]))"
  by (intro conjI) (simp, code_simp, code_simp)

text \<open>
  C9: a successfully fetched node whose normalized response has a \<^verbatim>\<open>secret\<close> and also a
  non-empty \<^verbatim>\<open>next\<close> list is a leaf: the traversal yields its secret as the one element
  and ends in the state the fetch of this node left. Every request sent during the
  visit goes to the URL of the node itself or to the session endpoint, so no path of
  the \<^verbatim>\<open>next\<close> list is requested.
\<close>

theorem secret_wins_over_next:
  assumes "request_next e st (create_url e path) False = (Inr resp, st1)"
    and "json_of resp = Some (JObj d)"
    and "dict_contains (normalize_keys (lower e) d) ''secret''"
    and "dict_get (normalize_keys (lower e) d) ''next'' = JArr next_list"
    and "next_list \<noteq> []"
  shows "get_next_secret (Suc depth) e st path =
           Some (st1, [dict_get (normalize_keys (lower e) d) ''secret''], None)
         \<and> (\<forall>r \<in> set (drop (length (trace st)) (trace st1)).
               url r = create_url e (create_url e path) \<or> r = session_request e)"
proof
  show "get_next_secret (Suc depth) e st path =
           Some (st1, [dict_get (normalize_keys (lower e) d) ''secret''], None)"
    by (simp add: assms(1-3))
  let ?r = "node_request e st (create_url e path)"
  have own: "url ?r = create_url e (create_url e path)"
    by (simp add: node_request_def)
  have st1: "st1 = snd (request_next e st (create_url e path) False)"
    by (simp add: assms(1))
  from request_next_state [of e st "create_url e path" False]
  consider "st1 = sends st [?r]" | "st1 = sends st [?r, session_request e]"
    | token where "st1 = sends (st\<lparr>headers := Some token\<rparr>)
         [?r, session_request e, \<lparr>url = create_url e (create_url e path), session_header = Some token\<rparr>]"
    unfolding st1 by blast
  then show "\<forall>r \<in> set (drop (length (trace st)) (trace st1)).
               url r = create_url e (create_url e path) \<or> r = session_request e"
    by cases (simp_all add: sends_def own)
qed

theorem secret_wins_over_next_witness:
  "get_next_secret 1
     (table_env
        [(''http://h/start'', reply 200 (JObj [(''secret'', JStr ''S''), (''next'', JArr [JStr ''a''])])),
         (''http://h/a'', reply 200 (JObj [(''secret'', JStr ''T'')]))])
     initial_state ''start'' =
   Some (\<lparr>headers = None, trace = [\<lparr>url = ''http://h/start'', session_header = None\<rparr>]\<rparr>,
         [JStr ''S''], None)"
proof -
  let ?e = "table_env
        [(''http://h/start'', reply 200 (JObj [(''secret'', JStr ''S''), (''next'', JArr [JStr ''a''])])),
         (''http://h/a'', reply 200 (JObj [(''secret'', JStr ''T'')]))]"
  let ?d = "[(''secret'', JStr ''S''), (''next'', JArr [JStr ''a''])]"
  let ?resp = "\<lparr>status_code = 200, body_text = [], json_of = Some (JObj ?d)\<rparr>"
  let ?st1 = "\<lparr>headers = None, trace = [\<lparr>url = ''http://h/start'', session_header = None\<rparr>]\<rparr>"
  have h1: "request_next ?e initial_state (create_url ?e ''start'') False = (Inr ?resp, ?st1)"
    by code_simp
  have h2: "json_of ?resp = Some (JObj ?d)"
    by simp
  have h3: "dict_contains (normalize_keys (lower ?e) ?d) ''secret''"
    by code_simp
  have h4: "dict_get (normalize_keys (lower ?e) ?d) ''next'' = JArr [JStr ''a'']"
    by code_simp
  have h5: "[JStr ''a''] \<noteq> []"
    by simp
  have v: "dict_get (normalize_keys (lower ?e) ?d) ''secret'' = JStr ''S''"
    by code_simp
  from secret_wins_over_next [OF h1 h2 h3 h4 h5, of 0]
  show ?thesis by (simp only: v One_nat_def)
qed

lemma join_append:
  "join (xs @ ys) = (case join xs of None \<Rightarrow> None | Some a \<Rightarrow> map_option ((@) a) (join ys))"
proof (induction xs rule: join.induct)
  case 1
  then show ?case by (cases "join ys") simp_all
next
  case (2 s xs)
  then show ?case
    by (cases "join xs"; cases "join ys") simp_all
qed simp_all

text \<open>
  C10: the leaf test asks whether the key \<^verbatim>\<open>secret\<close> is present, the branch test asks
  for the truth value of \<^verbatim>\<open>next\<close>. A response whose \<^verbatim>\<open>secret\<close> is the empty string is a
  leaf and yields the empty string, which adds nothing to the joined output. A
  response without \<^verbatim>\<open>secret\<close> whose \<^verbatim>\<open>next\<close> is null or false in any other way fails
  with \<open>MissingNextKey\<close>, as does one without \<^verbatim>\<open>next\<close>, whose \<^verbatim>\<open>.get("next")\<close> is
  \<^verbatim>\<open>None\<close>.
\<close>

theorem secret_by_presence_next_by_truth:
  assumes "request_next e st (create_url e path) False = (Inr resp, st1)"
    and "json_of resp = Some (JObj d)"
  shows "(dict_contains (normalize_keys (lower e) d) ''secret''
            \<and> dict_get (normalize_keys (lower e) d) ''secret'' = JStr [] \<longrightarrow>
          get_next_secret (Suc depth) e st path = Some (st1, [JStr []], None))
         \<and> join (found @ [JStr []] @ later) = join (found @ later)
         \<and> (\<not> dict_contains (normalize_keys (lower e) d) ''secret''
              \<and> \<not> truthy (dict_get (normalize_keys (lower e) d) ''next'') \<longrightarrow>
            get_next_secret (Suc depth) e st path =
              Some (st1, [],
                Some (MissingNextKey (headers st1) (create_url e path) (normalize_keys (lower e) d))))
         \<and> (\<not> dict_contains (normalize_keys (lower e) d) ''next'' \<longrightarrow>
              \<not> truthy (dict_get (normalize_keys (lower e) d) ''next''))"
proof (intro conjI impI)
  show "join (found @ [JStr []] @ later) = join (found @ later)"
    by (cases "join found"; cases "join later") (simp_all add: join_append)
qed (simp_all add: assms dict_get_absent)

theorem secret_by_presence_next_by_truth_witness:
  "get_next_secret 1 (table_env [(''http://h/start'', reply 200 (JObj [(''secret'', JStr [])]))])
     initial_state ''start'' =
     Some (\<lparr>headers = None, trace = [\<lparr>url = ''http://h/start'', session_header = None\<rparr>]\<rparr>,
           [JStr []], None)
   \<and> join ([JStr ''X''] @ [JStr []] @ [JStr ''Y'']) = Some ''XY''
   \<and> get_next_secret 1 (table_env [(''http://h/start'', reply 200 (JObj [(''next'', JNull)]))])
     initial_state ''start'' =
     Some (\<lparr>headers = None, trace = [\<lparr>url = ''http://h/start'', session_header = None\<rparr>]\<rparr>,
           [], Some (MissingNextKey None ''http://h/start'' [(''next'', JNull)]))"
proof -
  let ?blank = "table_env [(''http://h/start'', reply 200 (JObj [(''secret'', JStr [])]))]"
  let ?null = "table_env [(''http://h/start'', reply 200 (JObj [(''next'', JNull)]))]"
  let ?st1 = "\<lparr>headers = None, trace = [\<lparr>url = ''http://h/start'', session_header = None\<rparr>]\<rparr>"
  let ?rb = "\<lparr>status_code = 200, body_text = [], json_of = Some (JObj [(''secret'', JStr [])])\<rparr>"
  let ?rn = "\<lparr>status_code = 200, body_text = [], json_of = Some (JObj [(''next'', JNull)])\<rparr>"
  have a1: "request_next ?blank initial_state (create_url ?blank ''start'') False = (Inr ?rb, ?st1)"
    by code_simp
  have a2: "json_of ?rb = Some (JObj [(''secret'', JStr [])])"
    by simp
  have a3: "dict_contains (normalize_keys (lower ?blank) [(''secret'', JStr [])]) ''secret''
              \<and> dict_get (normalize_keys (lower ?blank) [(''secret'', JStr [])]) ''secret'' = JStr []"
    by code_simp
  have b1: "request_next ?null initial_state (create_url ?null ''start'') False = (Inr ?rn, ?st1)"
    by code_simp
  have b2: "json_of ?rn = Some (JObj [(''next'', JNull)])"
    by simp
  have b3: "\<not> dict_contains (normalize_keys (lower ?null) [(''next'', JNull)]) ''secret''
              \<and> \<not> truthy (dict_get (normalize_keys (lower ?null) [(''next'', JNull)]) ''next'')"
    by code_simp
  have b4: "normalize_keys (lower ?null) [(''next'', JNull)] = [(''next'', JNull)]"
    and b5: "create_url ?null ''start'' = ''http://h/start''"
    and b6: "join ([JStr ''X''] @ [JStr ''Y'']) = Some ''XY''"
    by code_simp+
  from secret_by_presence_next_by_truth
         [OF a1 a2, where depth = 0 and found = "[JStr ''X'']" and later = "[JStr ''Y'']"] a3
  have one: "get_next_secret 1 ?blank initial_state ''start'' = Some (?st1, [JStr []], None)"
    and two: "join ([JStr ''X''] @ [JStr []] @ [JStr ''Y'']) = join ([JStr ''X''] @ [JStr ''Y''])"
    by simp_all
  from secret_by_presence_next_by_truth [OF b1 b2, where depth = 0] b3
  have three: "get_next_secret 1 ?null initial_state ''start'' =
      Some (?st1, [], Some (MissingNextKey None ''http://h/start'' [(''next'', JNull)]))"
    by (simp add: b4 b5)
  show ?thesis
    by (simp only: one two three b6 simp_thms)
qed

text \<open>
  C5, as the code has it: the traversal looks fields up regardless of the casing of
  the keys in the response, because \<^verbatim>\<open>get_next_secret\<close> normalizes the keys of the
  fetched body before it classifies the node: a success body that carries the secret
  under a key such as \<^verbatim>\<open>Secret\<close> is a leaf and yields that value, one that carries a
  non-empty list of paths under a key such as \<^verbatim>\<open>Next\<close> (and no secret) is a branch
  whose children are visited in order. (The keys are taken to be distinct up to
  case.) The Fetcher classifies a failure on the body as received: without the key
  \<^verbatim>\<open>error\<close> in exactly this spelling the fetch fails, sends no refresh and no retry, and
  leaves the credential as it was.
\<close>

theorem traversal_lookup_ignores_case:
  assumes "request_next e st (create_url e path) False = (Inr resp, st1)"
    and "json_of resp = Some (JObj d)"
    and "distinct (map (\<lambda>kv. lower e (fst kv)) d)"
  shows "((k, v) \<in> set d \<and> lower e k = ''secret'' \<longrightarrow>
            get_next_secret (Suc depth) e st path = Some (st1, [v], None))
         \<and> ((k, JArr (map JStr next_list)) \<in> set d \<and> lower e k = ''next'' \<and> next_list \<noteq> []
              \<and> ''secret'' \<notin> lower e ` fst ` set d \<longrightarrow>
            get_next_secret (Suc depth) e st path =
              for_next_path (get_next_secret depth e) st1 next_list)
         \<and> (server e (trace st') (node_request e st' path') = Some bad \<and> raises_for_status bad
              \<and> json_of bad = Some (JObj d') \<and> ''error'' \<notin> fst ` set d' \<longrightarrow>
            isl (fst (request_next e st' path' False))
            \<and> snd (request_next e st' path' False) = sends st' [node_request e st' path'])"
proof (intro conjI impI)
  assume "(k, v) \<in> set d \<and> lower e k = ''secret''"
  with normalize_keys_get [OF assms(3), of k v]
  have "dict_contains (normalize_keys (lower e) d) ''secret''" "dict_get (normalize_keys (lower e) d) ''secret'' = v"
    by simp_all
  then show "get_next_secret (Suc depth) e st path = Some (st1, [v], None)"
    by (simp add: assms(1,2))
next
  assume a: "(k, JArr (map JStr next_list)) \<in> set d \<and> lower e k = ''next'' \<and> next_list \<noteq> []
              \<and> ''secret'' \<notin> lower e ` fst ` set d"
  with normalize_keys_get [OF assms(3), of k "JArr (map JStr next_list)"]
  have nx: "dict_get (normalize_keys (lower e) d) ''next'' = JArr (map JStr next_list)"
    by simp
  have no: "\<not> dict_contains (normalize_keys (lower e) d) ''secret''"
    using a by (simp add: normalize_keys_lacks)
  have "the_strings (map (\<lambda>c. JStr (id c)) next_list) = Some (map id next_list)"
    by (rule the_strings_JStr)
  then have "next_paths (dict_get (normalize_keys (lower e) d) ''next'') = Some next_list"
    by (simp add: nx)
  with a show "get_next_secret (Suc depth) e st path =
              for_next_path (get_next_secret depth e) st1 next_list"
    by (simp add: assms(1,2) no nx)
next
  assume b: "server e (trace st') (node_request e st' path') = Some bad \<and> raises_for_status bad
              \<and> json_of bad = Some (JObj d') \<and> ''error'' \<notin> fst ` set d'"
  then have b1: "server e (trace st') (node_request e st' path') = Some bad"
    and b2: "raises_for_status bad"
    and b3: "json_of bad = Some (JObj d')"
    and b4: "\<not> truthy (dict_get d' ''error'')"
    by (simp_all add: dict_get_absent dict_contains_def)
  have "request_next e st' path' False =
           (case headers st' of
              None \<Rightarrow> Inl (KeyError ''Session'')
            | Some session \<Rightarrow> Inl (MalformedErrorResponse session (create_url e path') (JObj d')),
            sends st' [node_request e st' path'])"
    by (rule request_next_no_refresh [OF b1 b2 b3 b4])
  then show "isl (fst (request_next e st' path' False))"
    and "snd (request_next e st' path' False) = sends st' [node_request e st' path']"
    by (simp_all split: option.splits)
qed

theorem traversal_lookup_ignores_case_witness:
  "get_next_secret 1 mixed_case_env initial_state ''c'' =
     Some (\<lparr>headers = None, trace = [\<lparr>url = ''http://h/c'', session_header = None\<rparr>]\<rparr>,
           [JStr ''Y''], None)
   \<and> get_next_secret 2 mixed_case_env initial_state ''b'' =
     Some (\<lparr>headers = None,
             trace = [\<lparr>url = ''http://h/b'', session_header = None\<rparr>,
                      \<lparr>url = ''http://h/c'', session_header = None\<rparr>]\<rparr>,
           [JStr ''Y''], None)
   \<and> snd (request_next mixed_case_env \<lparr>headers = Some ''tok'', trace = []\<rparr> ''http://h/x'' False) =
       \<lparr>headers = Some ''tok'',
        trace = [\<lparr>url = ''http://h/x'', session_header = Some ''tok''\<rparr>]\<rparr>"
proof -
  let ?c = "\<lparr>status_code = 200, body_text = [], json_of = Some (JObj [(''SeCret'', JStr ''Y'')])\<rparr>"
  let ?b = "\<lparr>status_code = 200, body_text = [], json_of = Some (JObj [(''NEXT'', JArr [JStr ''c''])])\<rparr>"
  let ?x = "\<lparr>status_code = 401, body_text = [], json_of = Some (JObj [(''Error'', JStr ''expired'')])\<rparr>"
  let ?stc = "\<lparr>headers = None, trace = [\<lparr>url = ''http://h/c'', session_header = None\<rparr>]\<rparr>"
  let ?stb = "\<lparr>headers = None, trace = [\<lparr>url = ''http://h/b'', session_header = None\<rparr>]\<rparr>"
  let ?old = "\<lparr>headers = Some ''tok'', trace = []\<rparr>"
  have c1: "request_next mixed_case_env initial_state (create_url mixed_case_env ''c'') False =
              (Inr ?c, ?stc)"
    by code_simp
  have c2: "json_of ?c = Some (JObj [(''SeCret'', JStr ''Y'')])"
    by simp
  have c3: "distinct (map (\<lambda>kv. lower mixed_case_env (fst kv)) [(''SeCret'', JStr ''Y'')])"
    by simp
  have c4: "(''SeCret'', JStr ''Y'') \<in> set [(''SeCret'', JStr ''Y'')] \<and> lower mixed_case_env ''SeCret'' = ''secret''"
    by code_simp
  have b1: "request_next mixed_case_env initial_state (create_url mixed_case_env ''b'') False =
              (Inr ?b, ?stb)"
    by code_simp
  have b2: "json_of ?b = Some (JObj [(''NEXT'', JArr [JStr ''c''])])"
    by simp
  have b3: "distinct (map (\<lambda>kv. lower mixed_case_env (fst kv)) [(''NEXT'', JArr [JStr ''c''])])"
    by simp
  have b4: "(''NEXT'', JArr (map JStr [''c''])) \<in> set [(''NEXT'', JArr [JStr ''c''])]
              \<and> lower mixed_case_env ''NEXT'' = ''next'' \<and> [''c''] \<noteq> []
              \<and> ''secret'' \<notin> lower mixed_case_env ` fst ` set [(''NEXT'', JArr [JStr ''c''])]"
    by (simp add: mixed_case_env_def table_env_def ascii_lower_def ascii_lower_char_def)
  have x1: "server mixed_case_env (trace ?old) (node_request mixed_case_env ?old ''http://h/x'') = Some ?x
              \<and> raises_for_status ?x \<and> json_of ?x = Some (JObj [(''Error'', JStr ''expired'')])
              \<and> ''error'' \<notin> fst ` set [(''Error'', JStr ''expired'')]"
    by (intro conjI) (code_simp, code_simp, simp, simp)
  have x2: "sends ?old [node_request mixed_case_env ?old ''http://h/x''] =
              \<lparr>headers = Some ''tok'',
               trace = [\<lparr>url = ''http://h/x'', session_header = Some ''tok''\<rparr>]\<rparr>"
    by code_simp
  have loop: "for_next_path (get_next_secret 1 mixed_case_env) ?stb [''c''] =
     Some (\<lparr>headers = None,
             trace = [\<lparr>url = ''http://h/b'', session_header = None\<rparr>,
                      \<lparr>url = ''http://h/c'', session_header = None\<rparr>]\<rparr>,
           [JStr ''Y''], None)"
    by code_simp
  from traversal_lookup_ignores_case
         [OF c1 c2 c3, where k = "''SeCret''" and v = "JStr ''Y''" and depth = 0
           and st' = ?old and path' = "''http://h/x''" and bad = ?x
           and d' = "[(''Error'', JStr ''expired'')]"] c4 x1
  have one: "get_next_secret 1 mixed_case_env initial_state ''c'' = Some (?stc, [JStr ''Y''], None)"
    and three: "snd (request_next mixed_case_env ?old ''http://h/x'' False) =
                  sends ?old [node_request mixed_case_env ?old ''http://h/x'']"
    by simp_all
  from traversal_lookup_ignores_case
         [OF b1 b2 b3, where k = "''NEXT''" and next_list = "[''c'']" and depth = 1] b4
  have two: "get_next_secret 2 mixed_case_env initial_state ''b'' =
               for_next_path (get_next_secret 1 mixed_case_env) ?stb [''c'']"
    by (simp add: numeral_2_eq_2)
  show ?thesis
    by (simp only: one two three loop x2 simp_thms)
qed

text \<open>
  C5 has every lookup case-insensitive because the Fetcher would normalize the keys
  before any classification. \<^verbatim>\<open>request_next\<close> reads \<^verbatim>\<open>response_json.get("error")\<close> from
  the body as parsed; \<^verbatim>\<open>normalize_keys\<close> is called by \<^verbatim>\<open>get_next_secret\<close> alone. A failure
  that carries \<^verbatim>\<open>Error\<close> is therefore not refreshed: it ends with
  \<open>MalformedErrorResponse\<close>, in a call of \<^verbatim>\<open>request_next\<close> as in a whole traversal from
  the initial state.
\<close>

theorem capital_error_is_not_refreshed:
  "request_next (failing_child_env (JObj [(''Error'', JStr ''expired'')]))
     \<lparr>headers = Some ''tok'', trace = []\<rparr> ''http://h/a'' False =
     (Inl (MalformedErrorResponse ''tok'' ''http://h/a'' (JObj [(''Error'', JStr ''expired'')])),
      \<lparr>headers = Some ''tok'',
       trace = [\<lparr>url = ''http://h/a'', session_header = Some ''tok''\<rparr>]\<rparr>)
   \<and> get_next_secret 2 (failing_child_env (JObj [(''Error'', JStr ''expired'')]))
       initial_state ''start'' =
     Some (\<lparr>headers = Some ''tok'',
             trace = [\<lparr>url = ''http://h/start'', session_header = None\<rparr>,
                      \<lparr>url = ''http://h/get-session'', session_header = None\<rparr>,
                      \<lparr>url = ''http://h/start'', session_header = Some ''tok''\<rparr>,
                      \<lparr>url = ''http://h/a'', session_header = Some ''tok''\<rparr>]\<rparr>,
           [],
           Some (MalformedErrorResponse ''tok'' ''http://h/a'' (JObj [(''Error'', JStr ''expired'')])))"
  by code_simp

subsection \<open>Trees\<close>

lemma served_fetch:
  assumes "server e = static site" and "served (create_url e) (lower e) site path = Some nd"
  shows "\<exists>resp d. request_next e st (create_url e path) False =
            (Inr resp, sends st [node_request e st (create_url e path)])
          \<and> json_of resp = Some (JObj d) \<and> normalize_keys (lower e) d = nd"
proof -
  from assms(2) obtain resp d where
    site: "site (create_url e (create_url e path)) = Some resp"
    and ok: "\<not> raises_for_status resp"
    and body: "json_of resp = Some (JObj d)"
    and nd: "normalize_keys (lower e) d = nd"
    by (auto simp: served_def split: option.splits if_splits json.splits)
  have "server e (trace st) (node_request e st (create_url e path)) = Some resp"
    by (simp add: assms(1) static_def node_request_def site)
  from request_next_success [OF this body ok] body nd show ?thesis by blast
qed

lemma node_request_sends: "node_request e (sends st rs) p = node_request e st p"
  by (simp add: node_request_def headers_sends)

lemma for_next_path_children:
  assumes "\<And>c st. c \<in> set children \<Longrightarrow>
             visit st (fst c) =
               Some (sends st (map (\<lambda>p. node_request e st (create_url e p))
                                (visited (fst c) (snd c))),
                     leaves (snd c), None)"
  shows "for_next_path visit st (map fst children) =
           Some (sends st (map (\<lambda>p. node_request e st (create_url e p))
                            (concat (map (\<lambda>c. visited (fst c) (snd c)) children))),
                 concat (map (\<lambda>c. leaves (snd c)) children), None)"
  using assms
proof (induction children arbitrary: st)
  case Nil
  then show ?case by (simp add: sends_def)
next
  case (Cons c children)
  have first: "visit st (fst c) =
      Some (sends st (map (\<lambda>p. node_request e st (create_url e p)) (visited (fst c) (snd c))),
            leaves (snd c), None)"
    by (rule Cons.prems) simp
  have rest: "for_next_path visit st' (map fst children) =
      Some (sends st' (map (\<lambda>p. node_request e st' (create_url e p))
                         (concat (map (\<lambda>c. visited (fst c) (snd c)) children))),
            concat (map (\<lambda>c. leaves (snd c)) children), None)" for st'
    by (rule Cons.IH) (simp add: Cons.prems)
  show ?case
    by (simp add: first rest node_request_sends sends_sends)
qed

lemma fold_max_ge: "(m::nat) \<le> fold max xs m"
  by (induction xs arbitrary: m) (auto intro: order_trans [OF max.cobounded2])

lemma fold_max_mem: "(x::nat) \<in> set xs \<Longrightarrow> x \<le> fold max xs m"
proof (induction xs arbitrary: m)
  case Nil
  then show ?case by simp
next
  case (Cons y ys)
  show ?case
  proof (cases "x = y")
    case True
    have "x \<le> max y m" by (simp add: True)
    also have "\<dots> \<le> fold max ys (max y m)" by (rule fold_max_ge)
    finally show ?thesis by simp
  next
    case False
    with Cons.prems have "x \<in> set ys" by simp
    then show ?thesis by (simp add: Cons.IH)
  qed
qed

lemma child_height: "c \<in> set children \<Longrightarrow> height (snd c) < height (Branch children)"
  using fold_max_mem [of "height (snd c)" "map (\<lambda>c. height (snd c)) children" 0]
  by (auto simp: less_Suc_eq_le)

text \<open>
  C1: when the server holds a finite tree at \<open>path\<close> (every branch answers with a
  non-empty \<^verbatim>\<open>next\<close> list, every path ends at a leaf), \<^verbatim>\<open>get_next_secret\<close> returns at
  any depth bound above the height of the tree, and yields exactly the secrets of
  the leaves, one per leaf, depth first and left to right; the nodes are requested in
  that order, a node before its children, the children in the listed order.
\<close>

theorem traversal_yields_leaves_left_to_right:
  assumes "server e = static site"
    and "holds_tree (create_url e) (lower e) site path t"
    and "height t < depth"
  shows "get_next_secret depth e st path =
           Some (sends st (map (\<lambda>p. node_request e st (create_url e p)) (visited path t)),
                 leaves t, None)"
  using assms(2,3)
proof (induction t arbitrary: path depth st)
  case (Leaf secret)
  from Leaf.prems(2) obtain n where depth: "depth = Suc n" by (cases depth) auto
  from Leaf.prems(1) obtain nd where
    nd: "served (create_url e) (lower e) site path = Some nd"
    and leaf: "dict_contains nd ''secret''" "dict_get nd ''secret'' = secret"
    by (auto split: option.splits)
  from served_fetch [OF assms(1) nd, of st] obtain resp d where
    "request_next e st (create_url e path) False =
       (Inr resp, sends st [node_request e st (create_url e path)])"
    "json_of resp = Some (JObj d)" "normalize_keys (lower e) d = nd"
    by blast
  then show ?case
    by (simp add: depth leaf)
next
  case (Branch children)
  from Branch.prems(2) obtain n where depth: "depth = Suc n" by (cases depth) auto
  from Branch.prems(1) obtain nd where
    nd: "served (create_url e) (lower e) site path = Some nd"
    and no_secret: "\<not> dict_contains nd ''secret''"
    and next_list: "dict_get nd ''next'' = JArr (map (\<lambda>c. JStr (fst c)) children)"
    and some: "children \<noteq> []"
    and below: "\<forall>c \<in> set children. holds_tree (create_url e) (lower e) site (fst c) (snd c)"
    by (auto split: option.splits)
  from served_fetch [OF assms(1) nd, of st] obtain resp d where
    fetch: "request_next e st (create_url e path) False =
       (Inr resp, sends st [node_request e st (create_url e path)])"
    "json_of resp = Some (JObj d)" "normalize_keys (lower e) d = nd"
    by blast
  have child: "get_next_secret n e st' (fst c) =
      Some (sends st' (map (\<lambda>p. node_request e st' (create_url e p)) (visited (fst c) (snd c))),
            leaves (snd c), None)"
    if "c \<in> set children" for c st'
  proof -
    have "snd c \<in> Basic_BNFs.snds c" by (cases c) simp
    moreover have "holds_tree (create_url e) (lower e) site (fst c) (snd c)"
      using below that by blast
    moreover have "height (snd c) < n"
      using child_height [OF that] Branch.prems(2) by (simp add: depth)
    ultimately show ?thesis
      by (intro Branch.IH [OF that])
  qed
  have loop: "for_next_path (get_next_secret n e) st' (map fst children) =
      Some (sends st' (map (\<lambda>p. node_request e st' (create_url e p))
                         (concat (map (\<lambda>c. visited (fst c) (snd c)) children))),
            concat (map (\<lambda>c. leaves (snd c)) children), None)" for st'
    by (rule for_next_path_children) (rule child)
  have truthy: "truthy (dict_get nd ''next'')"
    using some by (simp add: next_list)
  have paths: "next_paths (dict_get nd ''next'') = Some (map fst children)"
    by (simp add: next_list the_strings_JStr)
  show ?case
    by (simp add: depth fetch no_secret truthy paths loop node_request_sends sends_sends)
qed

theorem traversal_yields_leaves_left_to_right_witness:
  "server (table_env xy_table) = static (table_site xy_table)
   \<and> holds_tree (create_url (table_env xy_table)) (lower (table_env xy_table)) (table_site xy_table) ''start'' xy_tree
   \<and> height xy_tree < 3
   \<and> get_next_secret 3 (table_env xy_table) initial_state ''start'' =
       Some (\<lparr>headers = None,
               trace = [\<lparr>url = ''http://h/start'', session_header = None\<rparr>,
                        \<lparr>url = ''http://h/a'', session_header = None\<rparr>,
                        \<lparr>url = ''http://h/b'', session_header = None\<rparr>,
                        \<lparr>url = ''http://h/c'', session_header = None\<rparr>]\<rparr>,
             [JStr ''X'', JStr ''Y''], None)"
proof -
  have srv: "server (table_env xy_table) = static (table_site xy_table)"
    by (simp add: table_env_def)
  have tree: "holds_tree (create_url (table_env xy_table)) (lower (table_env xy_table)) (table_site xy_table) ''start'' xy_tree"
    by code_simp
  have low: "height xy_tree < 3"
    by code_simp
  have run: "sends initial_state
               (map (\<lambda>p. node_request (table_env xy_table) initial_state
                            (create_url (table_env xy_table) p))
                  (visited ''start'' xy_tree)) =
             \<lparr>headers = None,
               trace = [\<lparr>url = ''http://h/start'', session_header = None\<rparr>,
                        \<lparr>url = ''http://h/a'', session_header = None\<rparr>,
                        \<lparr>url = ''http://h/b'', session_header = None\<rparr>,
                        \<lparr>url = ''http://h/c'', session_header = None\<rparr>]\<rparr>"
    by (simp add: sends_def node_request_def table_env_def demo_url_def xy_tree_def
        initial_state_def)
  have out: "leaves xy_tree = [JStr ''X'', JStr ''Y'']"
    by (simp add: xy_tree_def)
  from traversal_yields_leaves_left_to_right [OF srv tree low, of initial_state]
  show ?thesis
    by (simp only: srv tree low run out simp_thms)
qed

section \<open>Session context\<close>

lemma refresh_only_iff:
  "refresh_only e st st' \<longleftrightarrow>
     (\<exists>new. trace st' = trace st @ new
        \<and> (headers st' = headers st \<or> session_request e \<in> set new)
        \<and> (\<forall>r \<in> set (takeWhile (\<lambda>r. r \<noteq> session_request e) new).
              session_header r = headers st))"
proof
  assume "refresh_only e st st'"
  then have "trace st' = trace st @ drop (length (trace st)) (trace st')"
    by (metis append_take_drop_id refresh_only_def)
  with \<open>refresh_only e st st'\<close> show "\<exists>new. trace st' = trace st @ new
        \<and> (headers st' = headers st \<or> session_request e \<in> set new)
        \<and> (\<forall>r \<in> set (takeWhile (\<lambda>r. r \<noteq> session_request e) new).
              session_header r = headers st)"
    unfolding refresh_only_def Let_def by blast
next
  assume "\<exists>new. trace st' = trace st @ new
        \<and> (headers st' = headers st \<or> session_request e \<in> set new)
        \<and> (\<forall>r \<in> set (takeWhile (\<lambda>r. r \<noteq> session_request e) new).
              session_header r = headers st)"
  then show "refresh_only e st st'"
    unfolding refresh_only_def Let_def by auto
qed

lemma refresh_only_refl: "refresh_only e st st"
  by (simp add: refresh_only_def)

lemma refresh_only_trans:
  assumes "refresh_only e st st1" and "refresh_only e st1 st2"
  shows "refresh_only e st st2"
proof -
  let ?q = "session_request e"
  from assms(1) obtain new1 where
    t1: "trace st1 = trace st @ new1"
    and h1: "headers st1 = headers st \<or> ?q \<in> set new1"
    and p1: "\<forall>r \<in> set (takeWhile (\<lambda>r. r \<noteq> ?q) new1). session_header r = headers st"
    unfolding refresh_only_iff by blast
  from assms(2) obtain new2 where
    t2: "trace st2 = trace st1 @ new2"
    and h2: "headers st2 = headers st1 \<or> ?q \<in> set new2"
    and p2: "\<forall>r \<in> set (takeWhile (\<lambda>r. r \<noteq> ?q) new2). session_header r = headers st1"
    unfolding refresh_only_iff by blast
  have t: "trace st2 = trace st @ (new1 @ new2)"
    by (simp add: t1 t2)
  have h: "headers st2 = headers st \<or> ?q \<in> set (new1 @ new2)"
    using h1 h2 by auto
  have p: "\<forall>r \<in> set (takeWhile (\<lambda>r. r \<noteq> ?q) (new1 @ new2)). session_header r = headers st"
  proof (cases "?q \<in> set new1")
    case True
    then have "takeWhile (\<lambda>r. r \<noteq> ?q) (new1 @ new2) = takeWhile (\<lambda>r. r \<noteq> ?q) new1"
      by (intro takeWhile_append1) auto
    then show ?thesis using p1 by simp
  next
    case False
    then have all1: "takeWhile (\<lambda>r. r \<noteq> ?q) new1 = new1"
      by (simp add: takeWhile_eq_all_conv) blast
    have split: "takeWhile (\<lambda>r. r \<noteq> ?q) (new1 @ new2) = new1 @ takeWhile (\<lambda>r. r \<noteq> ?q) new2"
      using False by (intro takeWhile_append2) auto
    have same: "headers st1 = headers st"
      using h1 False by simp
    have "\<forall>r \<in> set new1. session_header r = headers st"
      using p1 by (simp only: all1)
    moreover have "\<forall>r \<in> set (takeWhile (\<lambda>r. r \<noteq> ?q) new2). session_header r = headers st"
      using p2 by (simp only: same)
    ultimately show ?thesis
      by (simp only: split set_append) blast
  qed
  show ?thesis
    unfolding refresh_only_iff using t h p by blast
qed

lemma request_next_refresh_only:
  "refresh_only e st (snd (request_next e st path is_retry))"
proof -
  let ?r = "node_request e st path" and ?q = "session_request e"
  have r: "session_header ?r = headers st"
    by (simp add: node_request_def)
  have one: "refresh_only e st (sends st [?r])"
    unfolding refresh_only_iff
    by (intro exI [of _ "[?r]"]) (simp add: sends_def r)
  have two: "refresh_only e st (sends st [?r, ?q])"
    unfolding refresh_only_iff
    by (intro exI [of _ "[?r, ?q]"]) (simp add: sends_def r)
  have three: "refresh_only e st (sends (st\<lparr>headers := Some token\<rparr>) [?r, ?q, x])" for token x
    unfolding refresh_only_iff
    by (intro exI [of _ "[?r, ?q, x]"]) (simp add: sends_def r)
  from request_next_state [of e st path is_retry] one two three
  show ?thesis by auto
qed

lemma for_next_path_refresh_only:
  assumes "\<And>st p st' ys r. visit st p = Some (st', ys, r) \<Longrightarrow> refresh_only e st st'"
    and "for_next_path visit st ps = Some (st', ys, r)"
  shows "refresh_only e st st'"
  using assms(2)
proof (induction ps arbitrary: st ys)
  case Nil
  then show ?case by (simp add: refresh_only_refl)
next
  case (Cons p ps)
  from Cons.prems obtain st1 xs r1 where first: "visit st p = Some (st1, xs, r1)"
    by (auto split: option.splits)
  have a: "refresh_only e st st1"
    by (rule assms(1) [OF first])
  show ?case
  proof (cases r1)
    case None
    with Cons.prems first obtain zs where "for_next_path visit st1 ps = Some (st', zs, r)"
      by (auto split: option.splits)
    then have "refresh_only e st1 st'" by (rule Cons.IH)
    with a show ?thesis by (rule refresh_only_trans)
  next
    case (Some err)
    with Cons.prems first have "st' = st1" by simp
    with a show ?thesis by simp
  qed
qed

lemma get_next_secret_refresh_only:
  "get_next_secret depth e st path = Some (st', ys, r) \<Longrightarrow> refresh_only e st st'"
proof (induction depth arbitrary: st path st' ys r)
  case 0
  then show ?case by simp
next
  case (Suc depth)
  obtain res st1 where fetch: "request_next e st (create_url e path) False = (res, st1)"
    by (cases "request_next e st (create_url e path) False")
  have a: "refresh_only e st st1"
    using request_next_refresh_only [of e st "create_url e path" False] by (simp add: fetch)
  have loop: "refresh_only e st1 st'"
    if "for_next_path (get_next_secret depth e) st1 ps = Some (st', ys, r)" for ps
    using Suc.IH that by (rule for_next_path_refresh_only)
  from Suc.prems have "st' = st1 \<or> (\<exists>ps. for_next_path (get_next_secret depth e) st1 ps = Some (st', ys, r))"
    by (auto simp: fetch Let_def split: sum.splits option.splits json.splits if_splits)
  then have "refresh_only e st1 st'"
    using loop by (auto simp: refresh_only_refl)
  with a show ?case by (rule refresh_only_trans)
qed

text \<open>
  C7, as the code has it: the session credential is written only by the refresh step
  of the Fetcher. From the state before to the state after a fetch, and likewise a
  whole traversal, the program has only added requests to those sent; the credential
  differs only if a request to the session endpoint is among them; and every request
  up to the first such one carries the credential as it was at the start, so that
  from the initial state no request carries a \<^verbatim>\<open>Session\<close> header before the first
  refresh. Every other operation leaves the credential unchanged. The credential is
  read by the Fetcher, for the header and for its error reports, and by the
  traversal for the report of \<open>MissingNextKey\<close>.
\<close>

theorem credential_changes_only_by_refresh:
  "refresh_only e st (snd (request_next e st path is_retry))
   \<and> (get_next_secret depth e st path = Some (st', secrets, r) \<longrightarrow> refresh_only e st st')"
  using request_next_refresh_only get_next_secret_refresh_only by blast

theorem credential_changes_only_by_refresh_witness:
  "get_next_secret 1 z_env initial_state ''start'' =
     Some (\<lparr>headers = Some ''tok'',
             trace = [\<lparr>url = ''http://h/start'', session_header = None\<rparr>,
                      \<lparr>url = ''http://h/get-session'', session_header = None\<rparr>,
                      \<lparr>url = ''http://h/start'', session_header = Some ''tok''\<rparr>]\<rparr>,
           [JStr ''Z''], None)
   \<and> refresh_only z_env initial_state
       \<lparr>headers = Some ''tok'',
         trace = [\<lparr>url = ''http://h/start'', session_header = None\<rparr>,
                  \<lparr>url = ''http://h/get-session'', session_header = None\<rparr>,
                  \<lparr>url = ''http://h/start'', session_header = Some ''tok''\<rparr>]\<rparr>"
proof -
  have run: "get_next_secret 1 z_env initial_state ''start'' =
     Some (\<lparr>headers = Some ''tok'',
             trace = [\<lparr>url = ''http://h/start'', session_header = None\<rparr>,
                      \<lparr>url = ''http://h/get-session'', session_header = None\<rparr>,
                      \<lparr>url = ''http://h/start'', session_header = Some ''tok''\<rparr>]\<rparr>,
           [JStr ''Z''], None)"
    by code_simp
  with credential_changes_only_by_refresh
         [where e = z_env and st = initial_state and depth = 1 and path = "''start''"]
  show ?thesis by blast
qed

text \<open>
  C7 has the credential read only inside the Fetcher. \<^verbatim>\<open>get_next_secret\<close> evaluates
  \<^verbatim>\<open>headers.get("Session")\<close> for its own error report: in a run from the initial state
  the report of \<open>MissingNextKey\<close> holds the credential that the refresh stored; and
  on a server that ignores the header, where the Fetcher returns the same response
  from two states that differ in the credential alone, the traversal ends with
  different reports.
\<close>

theorem missing_next_report_reads_credential:
  "get_next_secret 1 empty_start_env initial_state ''start'' =
     Some (\<lparr>headers = Some ''tok'',
             trace = [\<lparr>url = ''http://h/start'', session_header = None\<rparr>,
                      \<lparr>url = ''http://h/get-session'', session_header = None\<rparr>,
                      \<lparr>url = ''http://h/start'', session_header = Some ''tok''\<rparr>]\<rparr>,
           [], Some (MissingNextKey (Some ''tok'') ''http://h/start'' []))
   \<and> fst (request_next (table_env [(''http://h/start'', reply 200 (JObj []))])
            \<lparr>headers = None, trace = []\<rparr> ''http://h/start'' False) =
     fst (request_next (table_env [(''http://h/start'', reply 200 (JObj []))])
            \<lparr>headers = Some ''tok'', trace = []\<rparr> ''http://h/start'' False)
   \<and> get_next_secret 1 (table_env [(''http://h/start'', reply 200 (JObj []))])
        \<lparr>headers = None, trace = []\<rparr> ''start'' =
       Some (\<lparr>headers = None, trace = [\<lparr>url = ''http://h/start'', session_header = None\<rparr>]\<rparr>,
             [], Some (MissingNextKey None ''http://h/start'' []))
   \<and> get_next_secret 1 (table_env [(''http://h/start'', reply 200 (JObj []))])
        \<lparr>headers = Some ''tok'', trace = []\<rparr> ''start'' =
       Some (\<lparr>headers = Some ''tok'',
               trace = [\<lparr>url = ''http://h/start'', session_header = Some ''tok''\<rparr>]\<rparr>,
             [], Some (MissingNextKey (Some ''tok'') ''http://h/start'' []))"
  by code_simp

section \<open>The whole run\<close>

lemma for_next_path_stops:
  assumes "for_next_path visit st0 before = Some (st1, xs, None)"
    and "visit st1 p = Some (st2, ys, Some err)"
  shows "for_next_path visit st0 (before @ p # rest) = Some (st2, xs @ ys, Some err)"
  using assms
proof (induction before arbitrary: st0 xs)
  case Nil
  then show ?case by simp
next
  case (Cons q before)
  from Cons.prems(1) obtain sta zs where first: "visit st0 q = Some (sta, zs, None)"
    by (auto split: option.splits)
  with Cons.prems(1) obtain ws where
    rest: "for_next_path visit sta before = Some (st1, ws, None)" and xs: "xs = zs @ ws"
    by (auto split: option.splits)
  have "for_next_path visit sta (before @ p # rest) = Some (st2, ws @ ys, Some err)"
    using rest Cons.prems(2) by (rule Cons.IH)
  then show ?case
    by (simp add: first xs)
qed

text \<open>
  C8: the output of a run is all or nothing. When the traversal from \<^verbatim>\<open>start\<close> ends with
  an error, whichever it is and whatever secrets were yielded before, \<^verbatim>\<open>run\<close> ends with
  that error alone and status 2, and no secret is printed. An error ends the
  traversal where it occurs: at a branch whose children before \<open>p\<close> have been visited
  without error, a failing visit of \<open>p\<close> ends the visit of the branch with the same
  error, in the state of the failure, so that no later sibling is visited.
\<close>

theorem run_all_or_nothing:
  "(get_next_secret depth e initial_state ''start'' = Some (st, secrets, Some err) \<longrightarrow>
      run depth e = Some (Exit_2 err))
   \<and> (request_next e st0 (create_url e path) False = (Inr resp, st1)
        \<and> json_of resp = Some (JObj d)
        \<and> \<not> dict_contains (normalize_keys (lower e) d) ''secret''
        \<and> dict_get (normalize_keys (lower e) d) ''next'' = JArr (map JStr (before @ p # rest))
        \<and> for_next_path (get_next_secret n e) st1 before = Some (st2, xs, None)
        \<and> get_next_secret n e st2 p = Some (st3, ys, Some err') \<longrightarrow>
      get_next_secret (Suc n) e st0 path = Some (st3, xs @ ys, Some err'))"
proof (intro conjI impI)
  assume "get_next_secret depth e initial_state ''start'' = Some (st, secrets, Some err)"
  then show "run depth e = Some (Exit_2 err)"
    by (simp add: run_def)
next
  assume a: "request_next e st0 (create_url e path) False = (Inr resp, st1)
        \<and> json_of resp = Some (JObj d)
        \<and> \<not> dict_contains (normalize_keys (lower e) d) ''secret''
        \<and> dict_get (normalize_keys (lower e) d) ''next'' = JArr (map JStr (before @ p # rest))
        \<and> for_next_path (get_next_secret n e) st1 before = Some (st2, xs, None)
        \<and> get_next_secret n e st2 p = Some (st3, ys, Some err')"
  then have "for_next_path (get_next_secret n e) st1 before = Some (st2, xs, None)"
    and "get_next_secret n e st2 p = Some (st3, ys, Some err')"
    by blast+
  then have loop: "for_next_path (get_next_secret n e) st1 (before @ p # rest) =
                     Some (st3, xs @ ys, Some err')"
    by (rule for_next_path_stops)
  have "the_strings (map (\<lambda>c. JStr (id c)) (before @ p # rest)) = Some (map id (before @ p # rest))"
    by (rule the_strings_JStr)
  then have paths: "next_paths (JArr (map JStr (before @ p # rest))) = Some (before @ p # rest)"
    by simp
  from a have fetch: "request_next e st0 (create_url e path) False = (Inr resp, st1)"
    and body: "json_of resp = Some (JObj d)"
    and no_secret: "\<not> dict_contains (normalize_keys (lower e) d) ''secret''"
    and nx: "dict_get (normalize_keys (lower e) d) ''next'' = JArr (map JStr (before @ p # rest))"
    by blast+
  show "get_next_secret (Suc n) e st0 path = Some (st3, xs @ ys, Some err')"
    using paths by (simp add: fetch body no_secret nx loop)
qed

theorem run_all_or_nothing_witness:
  "get_next_secret 2 abort_env initial_state ''start'' =
     Some (\<lparr>headers = None,
             trace = [\<lparr>url = ''http://h/start'', session_header = None\<rparr>,
                      \<lparr>url = ''http://h/a'', session_header = None\<rparr>,
                      \<lparr>url = ''http://h/b'', session_header = None\<rparr>]\<rparr>,
           [JStr ''X''],
           Some (MissingNextKey None ''http://h/b'' [(''next'', JArr [])]))
   \<and> run 2 abort_env = Some (Exit_2 (MissingNextKey None ''http://h/b'' [(''next'', JArr [])]))"
proof -
  let ?s0 = "\<lparr>headers = None, trace = [\<lparr>url = ''http://h/start'', session_header = None\<rparr>]\<rparr>"
  let ?s1 = "\<lparr>headers = None,
             trace = [\<lparr>url = ''http://h/start'', session_header = None\<rparr>,
                      \<lparr>url = ''http://h/a'', session_header = None\<rparr>]\<rparr>"
  let ?s2 = "\<lparr>headers = None,
             trace = [\<lparr>url = ''http://h/start'', session_header = None\<rparr>,
                      \<lparr>url = ''http://h/a'', session_header = None\<rparr>,
                      \<lparr>url = ''http://h/b'', session_header = None\<rparr>]\<rparr>"
  let ?err = "MissingNextKey None ''http://h/b'' [(''next'', JArr [])]"
  let ?d = "[(''next'', JArr [JStr ''a'', JStr ''b'', JStr ''c''])]"
  let ?resp = "\<lparr>status_code = 200, body_text = [], json_of = Some (JObj ?d)\<rparr>"
  have node: "request_next abort_env initial_state (create_url abort_env ''start'') False = (Inr ?resp, ?s0)
        \<and> json_of ?resp = Some (JObj ?d)
        \<and> \<not> dict_contains (normalize_keys (lower abort_env) ?d) ''secret''
        \<and> dict_get (normalize_keys (lower abort_env) ?d) ''next'' = JArr (map JStr ([''a''] @ ''b'' # [''c'']))
        \<and> for_next_path (get_next_secret 1 abort_env) ?s0 [''a''] = Some (?s1, [JStr ''X''], None)
        \<and> get_next_secret 1 abort_env ?s1 ''b'' = Some (?s2, [], Some ?err)"
    by (intro conjI) (code_simp, simp, code_simp, code_simp, code_simp, code_simp)
  from run_all_or_nothing
         [where depth = 2 and e = abort_env and st = ?s2 and secrets = "[JStr ''X'']"
            and err = ?err and ?st0.0 = initial_state and path = "''start''" and resp = ?resp
            and ?st1.0 = ?s0 and d = ?d and before = "[''a'']" and p = "''b''" and rest = "[''c'']"
            and n = 1 and ?st2.0 = ?s1 and xs = "[JStr ''X'']" and ?st3.0 = ?s2 and ys = "[]"
            and err' = ?err]
       node
  have whole: "get_next_secret 2 abort_env initial_state ''start'' = Some (?s2, [JStr ''X''], Some ?err)"
    by (simp add: numeral_2_eq_2)
  with run_all_or_nothing
         [where depth = 2 and e = abort_env and st = ?s2 and secrets = "[JStr ''X'']" and err = ?err]
  have "run 2 abort_env = Some (Exit_2 ?err)"
    by blast
  with whole show ?thesis by simp
qed

end
